theory Spec2Isabelle
  imports Main
begin

section \<open>Texts\<close>

text \<open>
  The script \<^verbatim>\<open>fix-hooks-final.py\<close> reads every file in text mode, so the value it works on
  is a Python \<^verbatim>\<open>str\<close>: a sequence of Unicode code points.  A code point is modelled by its
  number.  \<open>cps\<close> turns a literal of this theory into such a sequence; all the literals
  of the script are ASCII.
\<close>

type_synonym codepoint = nat
type_synonym str = "codepoint list"

definition cps :: "string \<Rightarrow> str" where
  "cps s = map of_char s"

definition nl :: codepoint where
  "nl = 10"

section \<open>Regular expressions: the fragment of Python's \<^verbatim>\<open>re\<close> that the script uses\<close>

text \<open>
  The constructors follow the syntax of the pattern string: literal characters,
  the class \<^verbatim>\<open>\w\<close>, a negated one-character class \<^verbatim>\<open>[^c]\<close>, concatenation, the greedy
  operators \<^verbatim>\<open>?\<close> and \<^verbatim>\<open>+\<close>, and a numbered capturing group.  A non-capturing
  group \<^verbatim>\<open>(?:...)\<close> only brackets and has no constructor.
\<close>

datatype rx =
    Lit string
  | Word
  | NotCh char
  | Cat rx rx
  | Opt rx
  | Plus rx
  | Grp nat rx

fun cats :: "rx list \<Rightarrow> rx" where
  "cats [] = Lit []"
| "cats [r] = r"
| "cats (r # rs) = Cat r (cats rs)"

text \<open>
  \<^verbatim>\<open>\w\<close> in a \<^verbatim>\<open>str\<close> pattern is Unicode aware: an alphanumeric code point or the
  underscore.  Below 128 these are the digits, the letters and \<^verbatim>\<open>_\<close>.  Which code points
  from 128 on are alphanumeric is a table of the Unicode database, which is not part of the
  script; it is the parameter \<open>U\<close> of everything that matches.
\<close>

definition is_word :: "(codepoint \<Rightarrow> bool) \<Rightarrow> codepoint \<Rightarrow> bool" where
  "is_word U c =
     (if c < 128
      then (48 \<le> c \<and> c \<le> 57) \<or> (65 \<le> c \<and> c \<le> 90) \<or> (97 \<le> c \<and> c \<le> 122) \<or> c = 95
      else U c)"

text \<open>
  The table used in the closed examples: no alphanumeric code point from 128 on.  The texts
  of the examples are ASCII, so the table is never consulted there.
\<close>

definition ascii_table :: "codepoint \<Rightarrow> bool" where
  "ascii_table c = False"

text \<open>
  The matcher is the backtracking matcher of \<^verbatim>\<open>re\<close>, written as a list of successes: the
  states (rest of the text, groups captured so far) in which a match of \<open>r\<close> started at
  the given state can end, in the order in which backtracking tries them.  The greedy
  operators try the longer alternative first.  An iteration of \<^verbatim>\<open>+\<close> that consumes nothing
  ends the repetition, as in \<^verbatim>\<open>re\<close>.
\<close>

type_synonym groups = "nat \<Rightarrow> str option"

fun ms :: "(codepoint \<Rightarrow> bool) \<Rightarrow> rx \<Rightarrow> str \<times> groups \<Rightarrow> (str \<times> groups) list" where
  "ms U (Lit l) (s, g) =
     (if take (length l) s = cps l then [(drop (length l) s, g)] else [])"
| "ms U Word (s, g) =
     (case s of [] \<Rightarrow> [] | x # xs \<Rightarrow> if is_word U x then [(xs, g)] else [])"
| "ms U (NotCh a) (s, g) =
     (case s of [] \<Rightarrow> [] | x # xs \<Rightarrow> if x \<noteq> of_char a then [(xs, g)] else [])"
| "ms U (Cat r1 r2) st = concat (map (ms U r2) (ms U r1 st))"
| "ms U (Opt r) st = ms U r st @ [st]"
| "ms U (Plus r) st =
     concat (map (\<lambda>st'. (if length (fst st') < length (fst st) then ms U (Plus r) st' else [])
                          @ [st'])
                 (ms U r st))"
| "ms U (Grp n r) (s, g) =
     map (\<lambda>(s', g'). (s', g'(n \<mapsto> take (length s - length s') s))) (ms U r (s, g))"

text \<open>
  The equation of \<^verbatim>\<open>+\<close> calls itself under a \<open>\<lambda>\<close>; it is unfolded by hand.
\<close>

declare ms.simps(6) [simp del]

text \<open>
  A match at the start of \<open>s\<close>: the first success, with the rest of the text and the groups.
\<close>

definition match_at :: "(codepoint \<Rightarrow> bool) \<Rightarrow> rx \<Rightarrow> str \<Rightarrow> (str \<times> groups) option" where
  "match_at U r s = (case ms U r (s, Map.empty) of [] \<Rightarrow> None | st # _ \<Rightarrow> Some st)"

text \<open>
  \<^verbatim>\<open>re.sub(pattern, repl, string)\<close> with a function \<open>repl\<close>: the leftmost match is replaced
  by what \<open>repl\<close> returns for it, the scan goes on behind the match, and a character at
  which no match starts is copied.  After an empty match the next character is copied.
\<close>

function re_sub :: "(codepoint \<Rightarrow> bool) \<Rightarrow> rx \<Rightarrow> (groups \<Rightarrow> str) \<Rightarrow> str \<Rightarrow> str" where
  "re_sub U r repl s =
     (case match_at U r s of
        Some (s', g) \<Rightarrow>
          if length s' < length s then repl g @ re_sub U r repl s'
          else repl g @ (case s of [] \<Rightarrow> [] | x # xs \<Rightarrow> x # re_sub U r repl xs)
      | None \<Rightarrow> (case s of [] \<Rightarrow> [] | x # xs \<Rightarrow> x # re_sub U r repl xs))"
  by pat_completeness auto
termination
  by (relation "measure (\<lambda>(U, r, repl, s). length s)") auto

declare re_sub.simps [simp del]

text \<open>
  The matches that \<^verbatim>\<open>re.sub\<close> replaces, as \<^verbatim>\<open>re.finditer\<close> lists them: the span
  \<open>[i, j)\<close> of each match in \<open>s\<close> and its groups.  The scan is the one of \<open>re_sub\<close>.
\<close>

definition shift :: "nat \<Rightarrow> (nat \<times> nat \<times> groups) list \<Rightarrow> (nat \<times> nat \<times> groups) list" where
  "shift k ms' = map (\<lambda>(i, j, g). (k + i, k + j, g)) ms'"

function finditer :: "(codepoint \<Rightarrow> bool) \<Rightarrow> rx \<Rightarrow> str \<Rightarrow> (nat \<times> nat \<times> groups) list" where
  "finditer U r s =
     (case match_at U r s of
        Some (s', g) \<Rightarrow>
          if length s' < length s
          then (0, length s - length s', g) # shift (length s - length s') (finditer U r s')
          else (0, 0, g) # (case s of [] \<Rightarrow> [] | x # xs \<Rightarrow> shift 1 (finditer U r xs))
      | None \<Rightarrow> (case s of [] \<Rightarrow> [] | x # xs \<Rightarrow> shift 1 (finditer U r xs)))"
  by pat_completeness auto
termination
  by (relation "measure (\<lambda>(U, r, s). length s)") auto

declare finditer.simps [simp del]

section \<open>The script\<close>

subsection \<open>The pattern and the replacement\<close>

text \<open>
  The pattern of \<^verbatim>\<open>fix_file\<close>, group by group:
  \<^verbatim>\<open>(export const \w+ = (?:React\.memo<[^>]+>\()?\(\{)\<close>, then \<^verbatim>\<open>\n\<close> and two spaces,
  \<^verbatim>\<open>(const \{ colors[^\n]+\n  const styles[^\n]+)\<close>, then \<^verbatim>\<open>\n\n\<close>,
  \<^verbatim>\<open>((?:  [^\n]+,?\n)+)\<close> and \<^verbatim>\<open>(\}\) => \{)\<close>.
  No flag is given and the pattern has no anchor.
\<close>

definition func_start_rx :: rx where
  "func_start_rx =
     cats [Lit ''export const '', Plus Word, Lit '' = '',
           Opt (cats [Lit ''React.memo<'', Plus (NotCh (CHR ''>'')), Lit ''>('']),
           Lit ''({'']"

definition hooks_rx :: rx where
  "hooks_rx =
     cats [Lit ''const { colors'', Plus (NotCh (CHR ''\<newline>'')),
           Lit ''\<newline>  const styles'', Plus (NotCh (CHR ''\<newline>''))]"

definition param_line_rx :: rx where
  "param_line_rx =
     cats [Lit ''  '', Plus (NotCh (CHR ''\<newline>'')), Opt (Lit '',''), Lit ''\<newline>'']"

definition params_rx :: rx where
  "params_rx = Plus param_line_rx"

definition func_arrow_rx :: rx where
  "func_arrow_rx = Lit ''}) => {''"

definition pattern :: rx where
  "pattern =
     cats [Grp 1 func_start_rx, Lit ''\<newline>  '', Grp 2 hooks_rx, Lit ''\<newline>\<newline>'',
           Grp 3 params_rx, Grp 4 func_arrow_rx]"

text \<open>
  \<^verbatim>\<open>match.group(n)\<close>, as an f-string formats it: a group that took no part in the match
  is \<^verbatim>\<open>None\<close> and prints as the word.
\<close>

definition group :: "groups \<Rightarrow> nat \<Rightarrow> str" where
  "group g n = (case g n of Some w \<Rightarrow> w | None \<Rightarrow> cps ''None'')"

text \<open>
  \<^verbatim>\<open>replacer\<close> returns \<^verbatim>\<open>f"{func_start}\n{params}{func_arrow}\n  {hooks}\n"\<close>.
\<close>

definition replacer :: "groups \<Rightarrow> str" where
  "replacer g =
     (let func_start = group g 1; hooks = group g 2; params = group g 3; func_arrow = group g 4
      in func_start @ cps ''\<newline>'' @ params @ func_arrow @ cps ''\<newline>  '' @ hooks
           @ cps ''\<newline>'')"

text \<open>
  The pure part of \<^verbatim>\<open>fix_file\<close>: the text after \<^verbatim>\<open>re.sub\<close> and whether it differs from
  the text read (\<^verbatim>\<open>content != original\<close>).
\<close>

definition rewrite :: "(codepoint \<Rightarrow> bool) \<Rightarrow> str \<Rightarrow> str \<times> bool" where
  "rewrite U original =
     (let content = re_sub U pattern replacer original in (content, content \<noteq> original))"

subsection \<open>The driver\<close>

text \<open>
  The files are a function from paths: a path is missing (\<^verbatim>\<open>open\<close> raises
  \<^verbatim>\<open>FileNotFoundError\<close>), cannot be read (opening or reading raises another
  \<^verbatim>\<open>Exception\<close>), or holds a text.  What writing to a path does is a second function:
  the write succeeds, raises \<^verbatim>\<open>FileNotFoundError\<close>, or raises another \<^verbatim>\<open>Exception\<close>
  and leaves the path in the state given.  Standard output is the list of the lines
  printed; printing itself is taken not to raise.
\<close>

type_synonym path = string

datatype file_state = Missing | Unreadable | Holds str

datatype write_result = Written | WriteNotFound | WriteFails file_state

datatype message =
    Banner
  | Fixed path
  | SkipNoChange path
  | SkipNotFound path
  | Error path
  | Summary nat

record env =
  disk :: "path \<Rightarrow> file_state"
  on_write :: "path \<Rightarrow> write_result"
  stdout :: "message list"

definition print :: "message \<Rightarrow> env \<Rightarrow> env" where
  "print m e = e\<lparr>stdout := stdout e @ [m]\<rparr>"

definition files :: "path list" where
  "files =
     [''src/components/analytics/shared/ComparisonChart.tsx'',
      ''src/components/analytics/shared/SummaryCard.tsx'',
      ''src/components/analytics/features/attendance/AttendanceDetailView.tsx'',
      ''src/components/analytics/features/fees/FeesDetailView.tsx'',
      ''src/components/analytics/features/learning/LearningDetailView.tsx'',
      ''src/components/analytics/features/syllabus/SyllabusProgressDetailView.tsx'',
      ''src/components/analytics/dashboards/SuperAdminDashboard.tsx'',
      ''src/components/analytics/dashboards/StudentDashboard.tsx'',
      ''src/components/analytics/dashboards/AdminDashboard.tsx'',
      ''src/components/common/Pagination.tsx'',
      ''src/components/resources/AddResourceModal.tsx'',
      ''src/components/tasks/StudentTaskCard.tsx'',
      ''src/components/tasks/TaskFormModal.tsx'',
      ''src/components/tasks/TaskSubmissionModal.tsx'',
      ''src/components/tests/CreateTestForm.tsx'',
      ''src/components/ui/EmptyState.tsx'',
      ''src/components/ui/ErrorView.tsx'',
      ''src/components/ui/LoadingView.tsx'',
      ''src/components/ui/SuccessAnimation.tsx'',
      ''src/features/fees/PaymentsScreen.tsx'',
      ''src/features/fees/StudentFeesScreen.tsx'']"

text \<open>
  \<^verbatim>\<open>fix_file\<close>: the boolean it returns and the environment it leaves.  The two
  \<^verbatim>\<open>except\<close> clauses cover the read and the write alike.
\<close>

definition fix_file :: "(codepoint \<Rightarrow> bool) \<Rightarrow> path \<Rightarrow> env \<Rightarrow> bool \<times> env" where
  "fix_file U filepath e =
     (case disk e filepath of
        Missing \<Rightarrow> (False, print (SkipNotFound filepath) e)
      | Unreadable \<Rightarrow> (False, print (Error filepath) e)
      | Holds original \<Rightarrow>
          (let (content, changed) = rewrite U original in
           if changed then
             (case on_write e filepath of
                Written \<Rightarrow>
                  (True, print (Fixed filepath)
                           (e\<lparr>disk := (disk e)(filepath := Holds content)\<rparr>))
              | WriteNotFound \<Rightarrow> (False, print (SkipNotFound filepath) e)
              | WriteFails left \<Rightarrow>
                  (False, print (Error filepath) (e\<lparr>disk := (disk e)(filepath := left)\<rparr>)))
           else (False, print (SkipNoChange filepath) e)))"

text \<open>
  \<^verbatim>\<open>sum(fix_file(f) for f in files)\<close>: the files in order, \<^verbatim>\<open>True\<close> counting one.
\<close>

fun fix_all :: "(codepoint \<Rightarrow> bool) \<Rightarrow> path list \<Rightarrow> nat \<Rightarrow> env \<Rightarrow> nat \<times> env" where
  "fix_all U [] acc e = (acc, e)"
| "fix_all U (f # fs) acc e =
     (let (b, e') = fix_file U f e in fix_all U fs (acc + (if b then 1 else 0)) e')"

definition main :: "(codepoint \<Rightarrow> bool) \<Rightarrow> env \<Rightarrow> nat \<times> env" where
  "main U e =
     (let (fixed, e') = fix_all U files 0 (print Banner e)
      in (fixed, print (Summary fixed) e'))"

section \<open>What the pattern matches\<close>

text \<open>
  The words a regular expression matches, without the order of backtracking and without
  the groups.  \<open>nogroups\<close> holds of an expression with no capturing group inside.
\<close>

primrec lang :: "(codepoint \<Rightarrow> bool) \<Rightarrow> rx \<Rightarrow> str set" where
  "lang U (Lit l) = {cps l}"
| "lang U Word = {[x] | x. is_word U x}"
| "lang U (NotCh a) = {[x] | x. x \<noteq> of_char a}"
| "lang U (Cat r1 r2) = {u @ v | u v. u \<in> lang U r1 \<and> v \<in> lang U r2}"
| "lang U (Opt r) = insert [] (lang U r)"
| "lang U (Plus r) = {concat ws | ws. ws \<noteq> [] \<and> set ws \<subseteq> lang U r}"
| "lang U (Grp n r) = lang U r"

primrec nogroups :: "rx \<Rightarrow> bool" where
  "nogroups (Lit l) = True"
| "nogroups Word = True"
| "nogroups (NotCh a) = True"
| "nogroups (Cat r1 r2) = (nogroups r1 \<and> nogroups r2)"
| "nogroups (Opt r) = nogroups r"
| "nogroups (Plus r) = nogroups r"
| "nogroups (Grp n r) = False"

text \<open>
  The texts of the four groups.  A line text is one or more characters other than the
  line feed.  A header is \<^verbatim>\<open>export const\<close>, a name of word characters, \<^verbatim>\<open> = \<close>, an optional
  \<^verbatim>\<open>React.memo<...>(\<close> whose type argument is any text without \<^verbatim>\<open>>\<close> (line feeds
  included), and \<^verbatim>\<open>({\<close>.  The hooks are two line texts behind their fixed openings.  The
  parameters are one or more lines, each two spaces and a line text.
\<close>

definition line_text :: "str \<Rightarrow> bool" where
  "line_text q = (q \<noteq> [] \<and> nl \<notin> set q)"

definition memo_texts :: "str set" where
  "memo_texts =
     insert [] {cps ''React.memo<'' @ t @ cps ''>('' | t. t \<noteq> [] \<and> of_char (CHR ''>'') \<notin> set t}"

definition func_starts :: "(codepoint \<Rightarrow> bool) \<Rightarrow> str set" where
  "func_starts U =
     {cps ''export const '' @ n @ cps '' = '' @ m @ cps ''({'' | n m.
        n \<noteq> [] \<and> (\<forall>x\<in>set n. is_word U x) \<and> m \<in> memo_texts}"

definition hooks_texts :: "str set" where
  "hooks_texts =
     {cps ''const { colors'' @ a @ cps ''\<newline>  const styles'' @ b | a b.
        line_text a \<and> line_text b}"

definition param_lines :: "str list \<Rightarrow> str" where
  "param_lines qs = concat (map (\<lambda>q. cps ''  '' @ q @ [nl]) qs)"

definition params_texts :: "str set" where
  "params_texts = {param_lines qs | qs. qs \<noteq> [] \<and> (\<forall>q\<in>set qs. line_text q)}"

text \<open>
  The text of a defect block with the groups \<open>h\<close>, \<open>k\<close> and \<open>p\<close>, the text the
  replacement puts in its place, and the groups of the match.
\<close>

definition defect :: "str \<Rightarrow> str \<Rightarrow> str \<Rightarrow> str" where
  "defect h k p = h @ cps ''\<newline>  '' @ k @ cps ''\<newline>\<newline>'' @ p @ cps ''}) => {''"

definition corrected :: "str \<Rightarrow> str \<Rightarrow> str \<Rightarrow> str" where
  "corrected h k p = h @ cps ''\<newline>'' @ p @ cps ''}) => {'' @ cps ''\<newline>  '' @ k @ cps ''\<newline>''"

definition groups_of :: "str \<Rightarrow> str \<Rightarrow> str \<Rightarrow> groups" where
  "groups_of h k p = [1 \<mapsto> h, 2 \<mapsto> k, 3 \<mapsto> p, 4 \<mapsto> cps ''}) => {'']"

section \<open>Example texts\<close>

text \<open>
  The block of the first scenario, each line ended by a line feed: the header, the two hook
  lines, the empty line, the parameters \<^verbatim>\<open>name,\<close> and \<^verbatim>\<open>value,\<close> and the closing line.
  \<open>scenario_A_fixed\<close> is the text the script makes of it; \<open>scenario_A_deeper\<close> is the same
  text with the hook lines at four spaces.  \<open>scenario_B\<close> is the block without the empty line.
\<close>

definition scenario_A :: str where
  "scenario_A =
     cps ''export const Foo = ({\<newline>  const { colors } = useX();\<newline>  const styles = useStyles();\<newline>\<newline>  name,\<newline>  value,\<newline>}) => {\<newline>''"

definition scenario_A_fixed :: str where
  "scenario_A_fixed =
     cps ''export const Foo = ({\<newline>  name,\<newline>  value,\<newline>}) => {\<newline>  const { colors } = useX();\<newline>  const styles = useStyles();\<newline>\<newline>''"

definition scenario_A_deeper :: str where
  "scenario_A_deeper =
     cps ''export const Foo = ({\<newline>  name,\<newline>  value,\<newline>}) => {\<newline>    const { colors } = useX();\<newline>    const styles = useStyles();\<newline>\<newline>''"

definition scenario_B :: str where
  "scenario_B =
     cps ''export const Foo = ({\<newline>  const { colors } = useX();\<newline>  const styles = useStyles();\<newline>  name,\<newline>  value,\<newline>}) => {\<newline>''"

lemma set_concat_map: "set (concat (map f xs)) = (\<Union>x\<in>set xs. set (f x))"
  by auto

lemma length_cps [simp]: "length (cps l) = length l"
  by (simp add: cps_def)

lemma take_eq_iff: "take (length w) s = w \<longleftrightarrow> (\<exists>s'. s = w @ s')"
  by (metis append_eq_conv_conj append_take_drop_id)

lemma concat_nonempty_split:
  assumes "ws \<noteq> []" "set ws \<subseteq> L"
  shows "concat ws = [] \<or> (\<exists>w ws'. w \<noteq> [] \<and> w \<in> L \<and> set ws' \<subseteq> L \<and> concat ws = w @ concat ws')"
  using assms
proof (induction ws)
  case Nil then show ?case by simp
next
  case (Cons w ws)
  show ?case
  proof (cases "w = []")
    case False
    then show ?thesis using Cons.prems by auto
  next
    case True
    show ?thesis
    proof (cases "ws = []")
      case True with \<open>w = []\<close> show ?thesis by simp
    next
      case False
      then show ?thesis using Cons True by auto
    qed
  qed
qed

lemma ms_lang:
  "nogroups r \<Longrightarrow> set (ms U r st) = {(s', snd st) | s'. \<exists>w\<in>lang U r. fst st = w @ s'}"
proof (induction U r st rule: ms.induct)
  case (1 U l s g)
  show ?case
    using take_eq_iff[of "cps l" s] by (auto simp: )
next
  case (2 U s g)
  then show ?case by (cases s) auto
next
  case (3 U a s g)
  then show ?case by (cases s) auto
next
  case (4 U r1 r2 st)
  have n1: "nogroups r1" and n2: "nogroups r2" using 4(3) by auto
  note ih1 = 4(1)[OF n1]
  have ih2: "\<And>x. x \<in> set (ms U r1 st) \<Longrightarrow> set (ms U r2 x) = {(s', snd x) | s'. \<exists>w\<in>lang U r2. fst x = w @ s'}"
    using 4(2) n2 by blast
  show ?case
  proof (rule set_eqI, rule iffI)
    fix e assume "e \<in> set (ms U (Cat r1 r2) st)"
    then obtain x where x: "x \<in> set (ms U r1 st)" and e: "e \<in> set (ms U r2 x)"
      by (auto simp: set_concat_map)
    from x ih1 obtain u where u: "u \<in> lang U r1" "fst st = u @ fst x" "snd x = snd st"
      by auto
    from e ih2[OF x] obtain v where v: "v \<in> lang U r2" "fst x = v @ fst e" "snd e = snd x"
      by auto
    have "fst st = (u @ v) @ fst e" using u v by simp
    moreover have "u @ v \<in> lang U (Cat r1 r2)" using u v by auto
    ultimately show "e \<in> {(s', snd st) | s'. \<exists>w\<in>lang U (Cat r1 r2). fst st = w @ s'}"
      using u(3) v(3) by (cases e) auto
  next
    fix e assume "e \<in> {(s', snd st) | s'. \<exists>w\<in>lang U (Cat r1 r2). fst st = w @ s'}"
    then obtain s' u v where e: "e = (s', snd st)" and u: "u \<in> lang U r1" and v: "v \<in> lang U r2"
      and s: "fst st = u @ v @ s'" by auto
    have x: "(v @ s', snd st) \<in> set (ms U r1 st)" using ih1 u s by auto
    have "e \<in> set (ms U r2 (v @ s', snd st))" using ih2[OF x] v e by auto
    with x show "e \<in> set (ms U (Cat r1 r2) st)" by (auto simp: set_concat_map)
  qed
next
  case (5 U r st)
  then show ?case by (cases st) auto
next
  case (6 U r st)
  have n: "nogroups r" using 6(3) by simp
  note ih1 = 6(1)[OF n]
  have ih2: "\<And>x. x \<in> set (ms U r st) \<Longrightarrow> length (fst x) < length (fst st) \<Longrightarrow>
      set (ms U (Plus r) x) = {(s', snd x) | s'. \<exists>w\<in>lang U (Plus r). fst x = w @ s'}"
    using 6(2) 6(3) by blast
  have unf: "\<And>e. e \<in> set (ms U (Plus r) st) \<longleftrightarrow>
      (\<exists>x\<in>set (ms U r st). e = x \<or> (length (fst x) < length (fst st) \<and> e \<in> set (ms U (Plus r) x)))"
    by (subst ms.simps(6)) (auto simp: set_concat_map split: if_splits)
  show ?case
  proof (rule set_eqI, rule iffI)
    fix e assume "e \<in> set (ms U (Plus r) st)"
    then obtain x where x: "x \<in> set (ms U r st)"
      and e: "e = x \<or> (length (fst x) < length (fst st) \<and> e \<in> set (ms U (Plus r) x))"
      unfolding unf by blast
    from x ih1 obtain u where u: "u \<in> lang U r" "fst st = u @ fst x" "snd x = snd st"
      by auto
    from e show "e \<in> {(s', snd st) | s'. \<exists>w\<in>lang U (Plus r). fst st = w @ s'}"
    proof
      assume "e = x"
      moreover have "u \<in> lang U (Plus r)"
        using u(1) by (auto intro!: exI[of _ "[u]"])
      ultimately show ?thesis using u by (cases e) auto
    next
      assume a: "length (fst x) < length (fst st) \<and> e \<in> set (ms U (Plus r) x)"
      then obtain ws where ws: "ws \<noteq> []" "set ws \<subseteq> lang U r" "fst x = concat ws @ fst e"
        and g: "snd e = snd x"
        using ih2[OF x] by auto
      have "concat (u # ws) \<in> lang U (Plus r)"
        using ws u(1) by (auto intro!: exI[of _ "u # ws"])
      moreover have "fst st = concat (u # ws) @ fst e" using u ws by simp
      ultimately show ?thesis using g u(3) by (cases e) (auto simp del: lang.simps concat.simps)
    qed
  next
    fix e assume "e \<in> {(s', snd st) | s'. \<exists>w\<in>lang U (Plus r). fst st = w @ s'}"
    then obtain s' ws where e: "e = (s', snd st)" and ws: "ws \<noteq> []" "set ws \<subseteq> lang U r"
      and s: "fst st = concat ws @ s'" by auto
    from concat_nonempty_split[OF ws] show "e \<in> set (ms U (Plus r) st)"
    proof
      assume c: "concat ws = []"
      then have "[] \<in> lang U r" using ws by (cases ws) auto
      then have "(s', snd st) \<in> set (ms U r st)" using ih1 s c by auto
      then show ?thesis unfolding unf e by blast
    next
      assume "\<exists>w ws'. w \<noteq> [] \<and> w \<in> lang U r \<and> set ws' \<subseteq> lang U r \<and> concat ws = w @ concat ws'"
      then obtain w ws' where w: "w \<noteq> []" "w \<in> lang U r" "set ws' \<subseteq> lang U r"
        "concat ws = w @ concat ws'" by blast
      have x: "(concat ws' @ s', snd st) \<in> set (ms U r st)"
        using ih1 w s by auto
      have lt: "length (fst (concat ws' @ s', snd st)) < length (fst st)"
        using w s by simp
      show ?thesis
      proof (cases "ws' = []")
        case True
        then show ?thesis using x unfolding unf e by force
      next
        case False
        then have "e \<in> set (ms U (Plus r) (concat ws' @ s', snd st))"
          using ih2[OF x lt] w(3) e by auto
        then show ?thesis using x lt unfolding unf by blast
      qed
    qed
  qed
next
  case (7 U n r s g)
  then show ?case by simp
qed

lemma ms_Grp:
  assumes "nogroups r"
  shows "set (ms U (Grp n r) (s, g)) = {(s', g(n \<mapsto> w)) | w s'. w \<in> lang U r \<and> s = w @ s'}"
proof (rule set_eqI, rule iffI)
  fix e assume "e \<in> set (ms U (Grp n r) (s, g))"
  then obtain s' g' where e: "e = (s', g'(n \<mapsto> take (length s - length s') s))"
    and m: "(s', g') \<in> set (ms U r (s, g))"
    by auto
  from m obtain w where w: "w \<in> lang U r" "s = w @ s'" "g' = g"
    unfolding ms_lang[OF assms] by auto
  have "take (length s - length s') s = w" using w(2) by simp
  then show "e \<in> {(s', g(n \<mapsto> w)) | w s'. w \<in> lang U r \<and> s = w @ s'}"
    using e w by blast
next
  fix e assume "e \<in> {(s', g(n \<mapsto> w)) | w s'. w \<in> lang U r \<and> s = w @ s'}"
  then obtain w s' where e: "e = (s', g(n \<mapsto> w))" and w: "w \<in> lang U r" "s = w @ s'"
    by blast
  have m: "(s', g) \<in> set (ms U r (s, g))"
    unfolding ms_lang[OF assms] using w by auto
  have t: "take (length s - length s') s = w" using w(2) by simp
  have "(s', g(n \<mapsto> take (length s - length s') s)) \<in> set (ms U (Grp n r) (s, g))"
    using m by (simp add: image_iff) (rule bexI[of _ "(s', g)"], simp_all)
  then show "e \<in> set (ms U (Grp n r) (s, g))" unfolding e t .
qed

lemma ms_Cat_iff:
  "e \<in> set (ms U (Cat r1 r2) st) \<longleftrightarrow> (\<exists>x\<in>set (ms U r1 st). e \<in> set (ms U r2 x))"
  by (simp add: set_concat_map)

lemma lang_Plus_chars:
  assumes "lang U r = {[x] | x. P x}"
  shows "lang U (Plus r) = {w. w \<noteq> [] \<and> (\<forall>x\<in>set w. P x)}"
proof (rule set_eqI, rule iffI)
  fix w assume "w \<in> lang U (Plus r)"
  then obtain ws where ws: "ws \<noteq> []" "set ws \<subseteq> {[x] | x. P x}" "w = concat ws"
    unfolding lang.simps assms by blast
  have "\<forall>x\<in>set (concat ws). P x" using ws(2) by (induction ws) auto
  moreover have "concat ws \<noteq> []" using ws(1,2) by (cases ws) auto
  ultimately show "w \<in> {w. w \<noteq> [] \<and> (\<forall>x\<in>set w. P x)}" using ws(3) by simp
next
  fix w assume "w \<in> {w. w \<noteq> [] \<and> (\<forall>x\<in>set w. P x)}"
  then have w: "w \<noteq> []" "\<forall>x\<in>set w. P x" by auto
  have c: "concat (map (\<lambda>x. [x]) w) = w" by (induction w) auto
  have s: "set (map (\<lambda>x. [x]) w) \<subseteq> lang U r" using w(2) unfolding assms by auto
  have n: "map (\<lambda>x. [x]) w \<noteq> []" using w(1) by simp
  have "concat (map (\<lambda>x. [x]) w) \<in> lang U (Plus r)"
    unfolding lang.simps using s n by blast
  then show "w \<in> lang U (Plus r)" unfolding c .
qed

lemma lang_Plus_Word: "lang U (Plus Word) = {w. w \<noteq> [] \<and> (\<forall>x\<in>set w. is_word U x)}"
  by (rule lang_Plus_chars) (rule lang.simps)

lemma lang_Plus_NotCh: "lang U (Plus (NotCh c)) = {w. w \<noteq> [] \<and> of_char c \<notin> set w}"
proof -
  have "lang U (Plus (NotCh c)) = {w. w \<noteq> [] \<and> (\<forall>x\<in>set w. x \<noteq> of_char c)}"
    by (rule lang_Plus_chars) (rule lang.simps)
  also have "\<dots> = {w. w \<noteq> [] \<and> of_char c \<notin> set w}" by blast
  finally show ?thesis .
qed

lemma of_char_newline: "of_char (CHR ''\<newline>'') = nl"
  by (simp add: nl_def)

lemma lang_Plus_not_nl: "lang U (Plus (NotCh (CHR ''\<newline>''))) = {q. line_text q}"
  unfolding lang_Plus_NotCh line_text_def of_char_newline ..

lemma lang_CatI: "u \<in> lang U r1 \<Longrightarrow> v \<in> lang U r2 \<Longrightarrow> u @ v \<in> lang U (Cat r1 r2)"
  by auto

lemma lang_CatE:
  assumes "w \<in> lang U (Cat r1 r2)"
  obtains u v where "w = u @ v" "u \<in> lang U r1" "v \<in> lang U r2"
  using assms by auto

lemma lang_LitI: "cps l \<in> lang U (Lit l)"
  by simp

lemma lang_LitD: "w \<in> lang U (Lit l) \<Longrightarrow> w = cps l"
  by simp

lemma in_memo:
  "m \<in> lang U (Opt (cats [Lit ''React.memo<'', Plus (NotCh (CHR ''>'')), Lit ''>(''])) \<longleftrightarrow>
   m \<in> memo_texts"
proof
  assume "m \<in> lang U (Opt (cats [Lit ''React.memo<'', Plus (NotCh (CHR ''>'')), Lit ''>(''])) "
  then have "m = [] \<or> m \<in> lang U (Cat (Lit ''React.memo<'') (Cat (Plus (NotCh (CHR ''>''))) (Lit ''>('')))"
    by simp
  then show "m \<in> memo_texts"
  proof
    assume "m = []" then show ?thesis by (simp add: memo_texts_def)
  next
    assume "m \<in> lang U (Cat (Lit ''React.memo<'') (Cat (Plus (NotCh (CHR ''>''))) (Lit ''>('')))"
    then obtain a b c where "m = a @ b @ c" "a \<in> lang U (Lit ''React.memo<'')"
        "b \<in> lang U (Plus (NotCh (CHR ''>'')))" "c \<in> lang U (Lit ''>('')"
      by (elim lang_CatE) simp
    then have "m = cps ''React.memo<'' @ b @ cps ''>(''" "b \<noteq> []" "of_char (CHR ''>'') \<notin> set b"
      by (auto simp: lang_Plus_NotCh simp del: lang.simps(6))
    then show ?thesis unfolding memo_texts_def by blast
  qed
next
  assume "m \<in> memo_texts"
  then have "m = [] \<or> (\<exists>t. t \<noteq> [] \<and> of_char (CHR ''>'') \<notin> set t \<and> m = cps ''React.memo<'' @ t @ cps ''>('')"
    unfolding memo_texts_def by blast
  then show "m \<in> lang U (Opt (cats [Lit ''React.memo<'', Plus (NotCh (CHR ''>'')), Lit ''>(''])) "
  proof
    assume "m = []" then show ?thesis by simp
  next
    assume "\<exists>t. t \<noteq> [] \<and> of_char (CHR ''>'') \<notin> set t \<and> m = cps ''React.memo<'' @ t @ cps ''>(''"
    then obtain t where t: "t \<noteq> []" "of_char (CHR ''>'') \<notin> set t" "m = cps ''React.memo<'' @ t @ cps ''>(''"
      by blast
    have "t \<in> lang U (Plus (NotCh (CHR ''>'')))" using t(1,2) unfolding lang_Plus_NotCh by simp
    then have "m \<in> lang U (Cat (Lit ''React.memo<'') (Cat (Plus (NotCh (CHR ''>''))) (Lit ''>('')))"
      unfolding t(3) by (intro lang_CatI lang_LitI)
    then show ?thesis by simp
  qed
qed

lemma lang_func_start: "lang U func_start_rx = func_starts U"
proof (rule set_eqI, rule iffI)
  fix w assume "w \<in> lang U func_start_rx"
  then obtain a n b m c where "w = a @ n @ b @ m @ c" "a \<in> lang U (Lit ''export const '')"
     "n \<in> lang U (Plus Word)" "b \<in> lang U (Lit '' = '')"
     "m \<in> lang U (Opt (cats [Lit ''React.memo<'', Plus (NotCh (CHR ''>'')), Lit ''>('']))"
     "c \<in> lang U (Lit ''({'')"
    unfolding func_start_rx_def cats.simps by (elim lang_CatE) simp
  then have "w = cps ''export const '' @ n @ cps '' = '' @ m @ cps ''({''"
      "n \<noteq> []" "\<forall>x\<in>set n. is_word U x" "m \<in> memo_texts"
    by (auto simp: in_memo lang_Plus_Word simp del: lang.simps(5,6) cats.simps)
  then show "w \<in> func_starts U" unfolding func_starts_def by blast
next
  fix w assume "w \<in> func_starts U"
  then obtain n m where w: "w = cps ''export const '' @ n @ cps '' = '' @ m @ cps ''({''"
     and n: "n \<noteq> []" "\<forall>x\<in>set n. is_word U x" and m: "m \<in> memo_texts"
    unfolding func_starts_def by blast
  have "n \<in> lang U (Plus Word)" using n unfolding lang_Plus_Word by simp
  moreover note m[folded in_memo[of m U]]
  ultimately show "w \<in> lang U func_start_rx"
    unfolding w func_start_rx_def cats.simps by (intro lang_CatI lang_LitI)
qed

lemma lang_hooks: "lang U hooks_rx = hooks_texts"
proof (rule set_eqI, rule iffI)
  fix w assume "w \<in> lang U hooks_rx"
  then obtain a x b y where "w = a @ x @ b @ y" "a \<in> lang U (Lit ''const { colors'')"
     "x \<in> lang U (Plus (NotCh (CHR ''\<newline>'')))" "b \<in> lang U (Lit ''\<newline>  const styles'')"
     "y \<in> lang U (Plus (NotCh (CHR ''\<newline>'')))"
    unfolding hooks_rx_def cats.simps by (elim lang_CatE) simp
  then have "w = cps ''const { colors'' @ x @ cps ''\<newline>  const styles'' @ y"
      "line_text x" "line_text y"
    by (auto simp: lang_Plus_not_nl simp del: lang.simps(6))
  then show "w \<in> hooks_texts" unfolding hooks_texts_def by blast
next
  fix w assume "w \<in> hooks_texts"
  then obtain x y where w: "w = cps ''const { colors'' @ x @ cps ''\<newline>  const styles'' @ y"
     and xy: "line_text x" "line_text y"
    unfolding hooks_texts_def by blast
  have "x \<in> lang U (Plus (NotCh (CHR ''\<newline>'')))" "y \<in> lang U (Plus (NotCh (CHR ''\<newline>'')))"
    using xy unfolding lang_Plus_not_nl by simp_all
  then show "w \<in> lang U hooks_rx"
    unfolding w hooks_rx_def cats.simps by (intro lang_CatI lang_LitI)
qed

lemma ms_Lit_iff:
  "e \<in> set (ms U (Lit l) (s, g)) \<longleftrightarrow> (\<exists>s1. s = cps l @ s1 \<and> e = (s1, g))"
proof
  assume a: "e \<in> set (ms U (Lit l) (s, g))"
  have t: "take (length l) s = cps l"
  proof (rule ccontr)
    assume "take (length l) s \<noteq> cps l"
    then have "ms U (Lit l) (s, g) = []" by simp
    then show False using a by simp
  qed
  then have "ms U (Lit l) (s, g) = [(drop (length l) s, g)]" by simp
  then have e: "e = (drop (length l) s, g)" using a by simp
  have "take (length l) s @ drop (length l) s = s" by (rule append_take_drop_id)
  then have "s = cps l @ drop (length l) s" unfolding t by (rule sym)
  then show "\<exists>s1. s = cps l @ s1 \<and> e = (s1, g)" using e by (intro exI conjI)
next
  assume "\<exists>s1. s = cps l @ s1 \<and> e = (s1, g)"
  then obtain s1 where "s = cps l @ s1" "e = (s1, g)" by (elim exE conjE)
  then show "e \<in> set (ms U (Lit l) (s, g))" by simp
qed

lemma ms_Cat_Lit:
  "e \<in> set (ms U (Cat (Lit l) r2) (s, g)) \<longleftrightarrow> (\<exists>s1. s = cps l @ s1 \<and> e \<in> set (ms U r2 (s1, g)))"
proof
  assume "e \<in> set (ms U (Cat (Lit l) r2) (s, g))"
  then obtain x where x: "x \<in> set (ms U (Lit l) (s, g))" and e: "e \<in> set (ms U r2 x)"
    unfolding ms_Cat_iff by (elim bexE)
  from x obtain s1 where "s = cps l @ s1" "x = (s1, g)"
    unfolding ms_Lit_iff by (elim exE conjE)
  then show "\<exists>s1. s = cps l @ s1 \<and> e \<in> set (ms U r2 (s1, g))"
    using e by (intro exI[of _ s1] conjI) simp_all
next
  assume "\<exists>s1. s = cps l @ s1 \<and> e \<in> set (ms U r2 (s1, g))"
  then obtain s1 where s: "s = cps l @ s1" and e: "e \<in> set (ms U r2 (s1, g))"
    by (elim exE conjE)
  have "(s1, g) \<in> set (ms U (Lit l) (s, g))"
    unfolding ms_Lit_iff using s by (intro exI[of _ s1] conjI) simp_all
  then show "e \<in> set (ms U (Cat (Lit l) r2) (s, g))"
    unfolding ms_Cat_iff using e by (rule bexI[rotated])
qed

lemma ms_Grp_iff:
  assumes "nogroups r"
  shows "e \<in> set (ms U (Grp n r) (s, g)) \<longleftrightarrow>
         (\<exists>w s1. w \<in> lang U r \<and> s = w @ s1 \<and> e = (s1, g(n \<mapsto> w)))"
proof -
  have "e \<in> set (ms U (Grp n r) (s, g)) \<longleftrightarrow>
        e \<in> {(s', g(n \<mapsto> w)) | w s'. w \<in> lang U r \<and> s = w @ s'}"
    unfolding ms_Grp[OF assms] ..
  also have "\<dots> \<longleftrightarrow> (\<exists>w s1. w \<in> lang U r \<and> s = w @ s1 \<and> e = (s1, g(n \<mapsto> w)))"
    by blast
  finally show ?thesis .
qed

lemma ms_Cat_Grp:
  assumes "nogroups r"
  shows "e \<in> set (ms U (Cat (Grp n r) r2) (s, g)) \<longleftrightarrow>
         (\<exists>w s1. w \<in> lang U r \<and> s = w @ s1 \<and> e \<in> set (ms U r2 (s1, g(n \<mapsto> w))))"
proof
  assume "e \<in> set (ms U (Cat (Grp n r) r2) (s, g))"
  then obtain x where x: "x \<in> set (ms U (Grp n r) (s, g))" and e: "e \<in> set (ms U r2 x)"
    unfolding ms_Cat_iff by (elim bexE)
  from x obtain w s1 where "w \<in> lang U r" "s = w @ s1" "x = (s1, g(n \<mapsto> w))"
    unfolding ms_Grp_iff[OF assms] by (elim exE conjE)
  then show "\<exists>w s1. w \<in> lang U r \<and> s = w @ s1 \<and> e \<in> set (ms U r2 (s1, g(n \<mapsto> w)))"
    using e by (intro exI[of _ w] exI[of _ s1] conjI) simp_all
next
  assume "\<exists>w s1. w \<in> lang U r \<and> s = w @ s1 \<and> e \<in> set (ms U r2 (s1, g(n \<mapsto> w)))"
  then obtain w s1 where w: "w \<in> lang U r" and s: "s = w @ s1"
    and e: "e \<in> set (ms U r2 (s1, g(n \<mapsto> w)))"
    by (elim exE conjE)
  have "(s1, g(n \<mapsto> w)) \<in> set (ms U (Grp n r) (s, g))"
    unfolding ms_Grp_iff[OF assms] using w s by (intro exI[of _ w] exI[of _ s1] conjI) simp_all
  then show "e \<in> set (ms U (Cat (Grp n r) r2) (s, g))"
    unfolding ms_Cat_iff using e by (rule bexI[rotated])
qed

lemma nogroups_func_start: "nogroups func_start_rx"
  by (simp add: func_start_rx_def)

lemma nogroups_hooks: "nogroups hooks_rx"
  by (simp add: hooks_rx_def)

lemma nogroups_params: "nogroups params_rx"
  by (simp add: params_rx_def param_line_rx_def)

lemma nogroups_arrow: "nogroups func_arrow_rx"
  by (simp add: func_arrow_rx_def)

lemma lang_arrow: "lang U func_arrow_rx = {cps ''}) => {''}"
  by (simp add: func_arrow_rx_def)

lemma ms_pattern_lang:
  "e \<in> set (ms U pattern (s, g0)) \<longleftrightarrow>
   (\<exists>h k p s'. h \<in> lang U func_start_rx \<and> k \<in> lang U hooks_rx \<and> p \<in> lang U params_rx \<and>
      s = defect h k p @ s' \<and>
      e = (s', g0(1 \<mapsto> h, 2 \<mapsto> k, 3 \<mapsto> p, 4 \<mapsto> cps ''}) => {'')))"
proof
  assume "e \<in> set (ms U pattern (s, g0))"
  then have "e \<in> set (ms U (Cat (Grp 1 func_start_rx) (Cat (Lit ''\<newline>  '')
       (Cat (Grp 2 hooks_rx) (Cat (Lit ''\<newline>\<newline>'') (Cat (Grp 3 params_rx) (Grp 4 func_arrow_rx)))))) (s, g0))"
    by (simp only: pattern_def cats.simps)
  then obtain h s1 where h: "h \<in> lang U func_start_rx" "s = h @ s1"
    and 1: "e \<in> set (ms U (Cat (Lit ''\<newline>  '')
       (Cat (Grp 2 hooks_rx) (Cat (Lit ''\<newline>\<newline>'') (Cat (Grp 3 params_rx) (Grp 4 func_arrow_rx))))) (s1, g0(1 \<mapsto> h)))"
    unfolding ms_Cat_Grp[OF nogroups_func_start] by (elim exE conjE)
  from 1 obtain s2 where s2: "s1 = cps ''\<newline>  '' @ s2"
    and 2: "e \<in> set (ms U (Cat (Grp 2 hooks_rx) (Cat (Lit ''\<newline>\<newline>'') (Cat (Grp 3 params_rx) (Grp 4 func_arrow_rx)))) (s2, g0(1 \<mapsto> h)))"
    unfolding ms_Cat_Lit by (elim exE conjE)
  from 2 obtain k s3 where k: "k \<in> lang U hooks_rx" "s2 = k @ s3"
    and 3: "e \<in> set (ms U (Cat (Lit ''\<newline>\<newline>'') (Cat (Grp 3 params_rx) (Grp 4 func_arrow_rx))) (s3, g0(1 \<mapsto> h, 2 \<mapsto> k)))"
    unfolding ms_Cat_Grp[OF nogroups_hooks] by (elim exE conjE)
  from 3 obtain s4 where s4: "s3 = cps ''\<newline>\<newline>'' @ s4"
    and 4: "e \<in> set (ms U (Cat (Grp 3 params_rx) (Grp 4 func_arrow_rx)) (s4, g0(1 \<mapsto> h, 2 \<mapsto> k)))"
    unfolding ms_Cat_Lit by (elim exE conjE)
  from 4 obtain p s5 where p: "p \<in> lang U params_rx" "s4 = p @ s5"
    and 5: "e \<in> set (ms U (Grp 4 func_arrow_rx) (s5, g0(1 \<mapsto> h, 2 \<mapsto> k, 3 \<mapsto> p)))"
    unfolding ms_Cat_Grp[OF nogroups_params] by (elim exE conjE)
  from 5 obtain c s' where c: "c \<in> lang U func_arrow_rx" "s5 = c @ s'"
    and e: "e = (s', g0(1 \<mapsto> h, 2 \<mapsto> k, 3 \<mapsto> p, 4 \<mapsto> c))"
    unfolding ms_Grp_iff[OF nogroups_arrow] by (elim exE conjE)
  have c': "c = cps ''}) => {''" using c(1) unfolding lang_arrow by simp
  have "s = defect h k p @ s'"
    unfolding defect_def h(2) s2 k(2) s4 p(2) c(2) c' by simp
  then show "\<exists>h k p s'. h \<in> lang U func_start_rx \<and> k \<in> lang U hooks_rx \<and> p \<in> lang U params_rx \<and>
      s = defect h k p @ s' \<and>
      e = (s', g0(1 \<mapsto> h, 2 \<mapsto> k, 3 \<mapsto> p, 4 \<mapsto> cps ''}) => {''))"
    using h(1) k(1) p(1) e unfolding c' by (intro exI[of _ h] exI[of _ k] exI[of _ p] exI[of _ s'] conjI)
next
  assume "\<exists>h k p s'. h \<in> lang U func_start_rx \<and> k \<in> lang U hooks_rx \<and> p \<in> lang U params_rx \<and>
      s = defect h k p @ s' \<and>
      e = (s', g0(1 \<mapsto> h, 2 \<mapsto> k, 3 \<mapsto> p, 4 \<mapsto> cps ''}) => {''))"
  then obtain h k p s' where h: "h \<in> lang U func_start_rx" and k: "k \<in> lang U hooks_rx"
    and p: "p \<in> lang U params_rx" and s: "s = defect h k p @ s'"
    and e: "e = (s', g0(1 \<mapsto> h, 2 \<mapsto> k, 3 \<mapsto> p, 4 \<mapsto> cps ''}) => {''))"
    by (elim exE conjE)
  have 5: "e \<in> set (ms U (Grp 4 func_arrow_rx) (cps ''}) => {'' @ s', g0(1 \<mapsto> h, 2 \<mapsto> k, 3 \<mapsto> p)))"
    unfolding ms_Grp_iff[OF nogroups_arrow] lang_arrow using e
    by (intro exI[of _ "cps ''}) => {''"] exI[of _ s'] conjI) simp_all
  have 4: "e \<in> set (ms U (Cat (Grp 3 params_rx) (Grp 4 func_arrow_rx))
       (p @ cps ''}) => {'' @ s', g0(1 \<mapsto> h, 2 \<mapsto> k)))"
    unfolding ms_Cat_Grp[OF nogroups_params] using p 5
    by (intro exI[of _ p] exI[of _ "cps ''}) => {'' @ s'"] conjI) simp_all
  have 3: "e \<in> set (ms U (Cat (Lit ''\<newline>\<newline>'') (Cat (Grp 3 params_rx) (Grp 4 func_arrow_rx)))
       (cps ''\<newline>\<newline>'' @ p @ cps ''}) => {'' @ s', g0(1 \<mapsto> h, 2 \<mapsto> k)))"
    unfolding ms_Cat_Lit using 4
    by (intro exI[of _ "p @ cps ''}) => {'' @ s'"] conjI) simp_all
  have 2: "e \<in> set (ms U (Cat (Grp 2 hooks_rx) (Cat (Lit ''\<newline>\<newline>'') (Cat (Grp 3 params_rx) (Grp 4 func_arrow_rx))))
       (k @ cps ''\<newline>\<newline>'' @ p @ cps ''}) => {'' @ s', g0(1 \<mapsto> h)))"
    unfolding ms_Cat_Grp[OF nogroups_hooks] using k 3
    by (intro exI[of _ k] exI[of _ "cps ''\<newline>\<newline>'' @ p @ cps ''}) => {'' @ s'"] conjI) simp_all
  have 1: "e \<in> set (ms U (Cat (Lit ''\<newline>  '') (Cat (Grp 2 hooks_rx) (Cat (Lit ''\<newline>\<newline>'') (Cat (Grp 3 params_rx) (Grp 4 func_arrow_rx)))))
       (cps ''\<newline>  '' @ k @ cps ''\<newline>\<newline>'' @ p @ cps ''}) => {'' @ s', g0(1 \<mapsto> h)))"
    unfolding ms_Cat_Lit using 2
    by (intro exI[of _ "k @ cps ''\<newline>\<newline>'' @ p @ cps ''}) => {'' @ s'"] conjI) simp_all
  have 0: "e \<in> set (ms U (Cat (Grp 1 func_start_rx) (Cat (Lit ''\<newline>  '') (Cat (Grp 2 hooks_rx) (Cat (Lit ''\<newline>\<newline>'') (Cat (Grp 3 params_rx) (Grp 4 func_arrow_rx))))))
       (h @ cps ''\<newline>  '' @ k @ cps ''\<newline>\<newline>'' @ p @ cps ''}) => {'' @ s', g0))"
    unfolding ms_Cat_Grp[OF nogroups_func_start] using h 1
    by (intro exI[of _ h] exI[of _ "cps ''\<newline>  '' @ k @ cps ''\<newline>\<newline>'' @ p @ cps ''}) => {'' @ s'"] conjI) simp_all
  have "s = h @ cps ''\<newline>  '' @ k @ cps ''\<newline>\<newline>'' @ p @ cps ''}) => {'' @ s'"
    unfolding s defect_def by simp
  then show "e \<in> set (ms U pattern (s, g0))"
    using 0 by (simp only: pattern_def cats.simps)
qed

lemma match_at_Some_in:
  assumes "match_at U r s = Some st"
  shows "st \<in> set (ms U r (s, Map.empty))"
proof (cases "ms U r (s, Map.empty)")
  case Nil
  then show ?thesis using assms by (simp add: match_at_def)
next
  case (Cons a as)
  then show ?thesis using assms by (simp add: match_at_def)
qed

lemma match_at_None_iff: "match_at U r s = None \<longleftrightarrow> ms U r (s, Map.empty) = []"
  by (cases "ms U r (s, Map.empty)") (simp_all add: match_at_def)

lemma match_at_pattern_SomeD:
  assumes "match_at U pattern s = Some (s', g)"
  shows "\<exists>h k p. h \<in> lang U func_start_rx \<and> k \<in> lang U hooks_rx \<and> p \<in> lang U params_rx \<and>
           s = defect h k p @ s' \<and> g = groups_of h k p"
proof -
  have "(s', g) \<in> set (ms U pattern (s, Map.empty))"
    using assms by (rule match_at_Some_in)
  then obtain h k p s'' where a: "h \<in> lang U func_start_rx" "k \<in> lang U hooks_rx"
      "p \<in> lang U params_rx" "s = defect h k p @ s''"
      "(s', g) = (s'', Map.empty(1 \<mapsto> h, 2 \<mapsto> k, 3 \<mapsto> p, 4 \<mapsto> cps ''}) => {''))"
    unfolding ms_pattern_lang by (elim exE conjE)
  from a(5) have "s' = s''" "g = groups_of h k p" unfolding groups_of_def by simp_all
  then show ?thesis using a(1-4) by (intro exI[of _ h] exI[of _ k] exI[of _ p] conjI) simp_all
qed

lemma match_at_pattern_SomeI:
  assumes "h \<in> lang U func_start_rx" "k \<in> lang U hooks_rx" "p \<in> lang U params_rx"
  shows "match_at U pattern (defect h k p @ s') \<noteq> None"
proof -
  have "(s', Map.empty(1 \<mapsto> h, 2 \<mapsto> k, 3 \<mapsto> p, 4 \<mapsto> cps ''}) => {''))
          \<in> set (ms U pattern (defect h k p @ s', Map.empty))"
    unfolding ms_pattern_lang using assms
    by (intro exI[of _ h] exI[of _ k] exI[of _ p] exI[of _ s'] conjI) simp_all
  then have "ms U pattern (defect h k p @ s', Map.empty) \<noteq> []" by auto
  then show ?thesis unfolding match_at_None_iff .
qed

lemma replacer_groups_of: "replacer (groups_of h k p) = corrected h k p"
  by (simp add: replacer_def groups_of_def group_def corrected_def)

lemma length_corrected: "length (corrected h k p) = length (defect h k p)"
  by (simp add: corrected_def defect_def)

lemma length_defect_pos: "0 < length (defect h k p)"
  by (simp add: defect_def)

lemma match_at_pattern_length:
  assumes "match_at U pattern s = Some (s', g)"
  shows "length s' < length s" and "length (replacer g) + length s' = length s"
proof -
  obtain h k p where s: "s = defect h k p @ s'" and g: "g = groups_of h k p"
    using match_at_pattern_SomeD[OF assms] by (elim exE conjE)
  show "length s' < length s" unfolding s using length_defect_pos[of h k p] by simp
  show "length (replacer g) + length s' = length s"
    unfolding s g replacer_groups_of length_corrected by simp
qed

lemma re_sub_match:
  assumes "match_at U pattern s = Some (s', g)"
  shows "re_sub U pattern replacer s = replacer g @ re_sub U pattern replacer s'"
  by (subst re_sub.simps) (simp add: assms match_at_pattern_length(1)[OF assms])

lemma re_sub_skip:
  assumes "match_at U r (x # xs) = None"
  shows "re_sub U r repl (x # xs) = x # re_sub U r repl xs"
  by (subst re_sub.simps) (simp add: assms)

lemma re_sub_Nil: "re_sub U pattern replacer [] = []"
proof (cases "match_at U pattern []")
  case None
  then show ?thesis by (subst re_sub.simps) simp
next
  case (Some st)
  obtain s' g where "st = (s', g)" by (cases st)
  then have "length s' < length ([]::str)" using match_at_pattern_length(1) Some by blast
  then show ?thesis by simp
qed

lemma length_re_sub: "length (re_sub U pattern replacer s) = length s"
proof (induction "length s" arbitrary: s rule: less_induct)
  case less
  show ?case
  proof (cases "match_at U pattern s")
    case None
    show ?thesis
    proof (cases s)
      case Nil
      then show ?thesis by (simp add: re_sub_Nil)
    next
      case (Cons x xs)
      have "length (re_sub U pattern replacer xs) = length xs"
        using less[of xs] Cons by simp
      then show ?thesis using None unfolding Cons by (simp add: re_sub_skip)
    qed
  next
    case (Some st)
    obtain s' g where st: "st = (s', g)" by (cases st)
    have m: "match_at U pattern s = Some (s', g)" using Some st by simp
    have "length (re_sub U pattern replacer s') = length s'"
      using less[of s'] match_at_pattern_length(1)[OF m] by simp
    then show ?thesis
      unfolding re_sub_match[OF m] using match_at_pattern_length(2)[OF m] by simp
  qed
qed

subsection \<open>Length\<close>

text \<open>
  Claim C10.  For every text \<open>T\<close> the text that \<open>rewrite\<close> returns has as many characters
  as \<open>T\<close>: the replacement of a block is as long as the block.
\<close>

theorem rewrite_length: "length (fst (rewrite U T)) = length T"
  by (simp add: rewrite_def Let_def length_re_sub)

theorem rewrite_length_witness:
  "length (fst (rewrite ascii_table scenario_A)) = 107"
  using rewrite_length[of ascii_table scenario_A] by (simp add: scenario_A_def)

end
